theory Spec2Isabelle
  imports Complex_Main "HOL-Library.Sublist"
begin

section \<open>Python runtime values used by the gallery\<close>

text \<open>
  The exceptions that the modelled part of \<^verbatim>\<open>Gallery_GUI.py\<close> can raise.
  \<open>KeyError\<close> comes from the \<^verbatim>\<open>OrderedDict\<close> operations, \<open>ReError\<close> from the
  regular-expression compiler behind \<^verbatim>\<open>Series.str.contains\<close>, \<open>TclError\<close> from
  Tk when a widget is created under a destroyed root window, \<open>OSError\<close> from
  reading the dataset, \<open>AttributeError\<close> from reading an attribute that was
  never assigned, \<open>ValueError\<close> from \<^verbatim>\<open>DataFrame.reset_index\<close> when it cannot name
  the column for the index labels.
\<close>

datatype py_error = KeyError | ReError | TclError | OSError | AttributeError | ValueError

section \<open>\<^verbatim>\<open>collections.OrderedDict\<close>\<close>

text \<open>
  An ordered dictionary is an association list in iteration order: the head is
  the first (oldest) item, the last element is the end that \<^verbatim>\<open>move_to_end\<close>
  moves to. Keys are unique.
\<close>

type_synonym ('k, 'v) odict = "('k \<times> 'v) list"

text \<open>\<^verbatim>\<open>k in d\<close>\<close>

definition od_contains :: "('k, 'v) odict \<Rightarrow> 'k \<Rightarrow> bool" where
  "od_contains d k = (map_of d k \<noteq> None)"

text \<open>\<^verbatim>\<open>d[k] = v\<close>: an existing key keeps its position, a new key goes to the end.\<close>

definition od_setitem :: "('k, 'v) odict \<Rightarrow> 'k \<Rightarrow> 'v \<Rightarrow> ('k, 'v) odict" where
  "od_setitem d k v =
     (if od_contains d k then map (\<lambda>e. if fst e = k then (k, v) else e) d
      else d @ [(k, v)])"

text \<open>\<^verbatim>\<open>d.move_to_end(k)\<close>: raises \<^verbatim>\<open>KeyError\<close> when the key is missing.\<close>

definition od_move_to_end :: "('k, 'v) odict \<Rightarrow> 'k \<Rightarrow> py_error + ('k, 'v) odict" where
  "od_move_to_end d k =
     (case map_of d k of
        None \<Rightarrow> Inl KeyError
      | Some v \<Rightarrow> Inr (filter (\<lambda>e. fst e \<noteq> k) d @ [(k, v)]))"

text \<open>\<^verbatim>\<open>d.popitem(last=False)\<close>: raises \<^verbatim>\<open>KeyError\<close> on an empty dictionary.\<close>

definition od_popitem_first :: "('k, 'v) odict \<Rightarrow> py_error + (('k \<times> 'v) \<times> ('k, 'v) odict)" where
  "od_popitem_first d = (case d of [] \<Rightarrow> Inl KeyError | e # d' \<Rightarrow> Inr (e, d'))"

text \<open>\<^verbatim>\<open>del d[k]\<close>: raises \<^verbatim>\<open>KeyError\<close> when the key is missing.\<close>

definition od_delitem :: "('k, 'v) odict \<Rightarrow> 'k \<Rightarrow> py_error + ('k, 'v) odict" where
  "od_delitem d k =
     (if od_contains d k then Inr (filter (\<lambda>e. fst e \<noteq> k) d) else Inl KeyError)"

section \<open>\<^verbatim>\<open>class ThumbnailCache\<close>\<close>

text \<open>
  \<open>cache\<close> maps a path to the pair (image, time of the \<^verbatim>\<open>put\<close>). The clock
  \<^verbatim>\<open>time.time()\<close> is read by \<^verbatim>\<open>put\<close> and \<^verbatim>\<open>purge_unused\<close> only; the model
  takes the value read as the argument \<open>now\<close>. Times are real numbers: the
  rounding of the floating-point subtraction in \<^verbatim>\<open>purge_unused\<close> is not modelled.
  \<open>max_size\<close> is whatever the constructor was given, so it is an \<open>int\<close>.
\<close>

record 'img thumbnail_cache =
  cache :: "(string, 'img \<times> real) odict"
  max_size :: int

definition MAX_THUMB_CACHE :: int where
  "MAX_THUMB_CACHE = 300"

definition ThumbnailCache :: "int \<Rightarrow> 'img thumbnail_cache" where
  "ThumbnailCache n = \<lparr>cache = [], max_size = n\<rparr>"

text \<open>
  \<^verbatim>\<open>get\<close> returns the image, or \<open>None\<close>, and the cache after the call: a hit
  moves the entry to the end and leaves its stored time as it is.
\<close>

definition get :: "'img thumbnail_cache \<Rightarrow> string \<Rightarrow> py_error + ('img option \<times> 'img thumbnail_cache)" where
  "get tc path =
     (if od_contains (cache tc) path then
        (case od_move_to_end (cache tc) path of
           Inl e \<Rightarrow> Inl e
         | Inr d \<Rightarrow>
             (case map_of d path of
                None \<Rightarrow> Inl KeyError
              | Some v \<Rightarrow> Inr (Some (fst v), tc\<lparr>cache := d\<rparr>)))
      else Inr (None, tc))"

text \<open>\<^verbatim>\<open>_cleanup\<close>: the loop pops the first item while there are more than \<open>max_size\<close>.\<close>

function cleanup :: "'img thumbnail_cache \<Rightarrow> py_error + 'img thumbnail_cache" where
  "cleanup tc =
     (if int (length (cache tc)) > max_size tc then
        (case od_popitem_first (cache tc) of
           Inl e \<Rightarrow> Inl e
         | Inr r \<Rightarrow> cleanup (tc\<lparr>cache := snd r\<rparr>))
      else Inr tc)"
  by pat_completeness auto
termination
  by (relation "measure (\<lambda>tc. length (cache tc))")
     (auto simp: od_popitem_first_def split: list.splits)

text \<open>\<^verbatim>\<open>put\<close> stores the image with the clock reading, moves the entry to the end and cleans up.\<close>

definition put :: "'img thumbnail_cache \<Rightarrow> string \<Rightarrow> 'img \<Rightarrow> real \<Rightarrow> py_error + 'img thumbnail_cache" where
  "put tc path img now =
     (case od_move_to_end (od_setitem (cache tc) path (img, now)) path of
        Inl e \<Rightarrow> Inl e
      | Inr d \<Rightarrow> cleanup (tc\<lparr>cache := d\<rparr>))"

text \<open>
  \<^verbatim>\<open>purge_unused\<close>: the keys whose stored time is more than \<open>max_age_seconds\<close>
  before \<open>now\<close> are collected first and deleted one by one (\<open>del_all\<close>). The
  callers in the gallery pass no argument, so \<open>max_age_seconds\<close> is 900 there.
\<close>

fun del_all :: "('k, 'v) odict \<Rightarrow> 'k list \<Rightarrow> py_error + ('k, 'v) odict" where
  "del_all d [] = Inr d"
| "del_all d (k # ks) =
     (case od_delitem d k of Inl e \<Rightarrow> Inl e | Inr d' \<Rightarrow> del_all d' ks)"

definition keys_to_remove :: "(string, 'img \<times> real) odict \<Rightarrow> real \<Rightarrow> real \<Rightarrow> string list" where
  "keys_to_remove d now max_age_seconds =
     map fst (filter (\<lambda>e. now - snd (snd e) > max_age_seconds) d)"

definition purge_unused :: "'img thumbnail_cache \<Rightarrow> real \<Rightarrow> real \<Rightarrow> py_error + 'img thumbnail_cache" where
  "purge_unused tc now max_age_seconds =
     (case del_all (cache tc) (keys_to_remove (cache tc) now max_age_seconds) of
        Inl e \<Rightarrow> Inl e
      | Inr d \<Rightarrow> Inr (tc\<lparr>cache := d\<rparr>))"

text \<open>
  A caller's view of the cache: a sequence of \<^verbatim>\<open>get\<close> and \<^verbatim>\<open>put\<close> calls.
  \<open>Put path img now\<close> is a \<^verbatim>\<open>put\<close> during which the clock read \<open>now\<close>.
  \<open>run_ops\<close> performs the calls in order and stops at the first exception; next
  to the final cache it returns the keys that were touched, in the order of the
  touches: the key of every \<^verbatim>\<open>put\<close> and of every \<^verbatim>\<open>get\<close> that returned an image.
\<close>

datatype 'img cache_op = Get string | Put string 'img real

definition run_op :: "'img thumbnail_cache \<Rightarrow> 'img cache_op \<Rightarrow> py_error + ('img thumbnail_cache \<times> string list)" where
  "run_op tc op =
     (case op of
        Get path \<Rightarrow>
          (case get tc path of
             Inl e \<Rightarrow> Inl e
           | Inr r \<Rightarrow> Inr (snd r, (case fst r of None \<Rightarrow> [] | Some _ \<Rightarrow> [path])))
      | Put path img now \<Rightarrow>
          (case put tc path img now of
             Inl e \<Rightarrow> Inl e
           | Inr tc' \<Rightarrow> Inr (tc', [path])))"

fun run_ops :: "'img thumbnail_cache \<Rightarrow> 'img cache_op list \<Rightarrow> py_error + ('img thumbnail_cache \<times> string list)" where
  "run_ops tc [] = Inr (tc, [])"
| "run_ops tc (op # ops) =
     (case run_op tc op of
        Inl e \<Rightarrow> Inl e
      | Inr r \<Rightarrow>
          (case run_ops (fst r) ops of
             Inl e \<Rightarrow> Inl e
           | Inr r' \<Rightarrow> Inr (fst r', snd r @ snd r')))"

section \<open>Strings\<close>

text \<open>
  Strings are modelled over ASCII: \<^verbatim>\<open>str.lower\<close> maps \<open>A\<close>..\<open>Z\<close> to \<open>a\<close>..\<open>z\<close>,
  \<^verbatim>\<open>str.strip\<close> removes the ASCII characters for which \<^verbatim>\<open>str.isspace\<close> holds
  from both ends.
\<close>

definition lower_char :: "char \<Rightarrow> char" where
  "lower_char c =
     (case map_of (zip ''ABCDEFGHIJKLMNOPQRSTUVWXYZ'' ''abcdefghijklmnopqrstuvwxyz'') c of
        Some l \<Rightarrow> l
      | None \<Rightarrow> c)"

definition lower :: "string \<Rightarrow> string" where
  "lower s = map lower_char s"

definition isspace :: "char \<Rightarrow> bool" where
  "isspace c = (c \<in> set [CHR 0x09, CHR 0x0A, CHR 0x0B, CHR 0x0C, CHR 0x0D,
                          CHR 0x1C, CHR 0x1D, CHR 0x1E, CHR 0x1F, CHR 0x20])"

definition strip :: "string \<Rightarrow> string" where
  "strip s = rev (dropWhile isspace (rev (dropWhile isspace s)))"

text \<open>
  \<^verbatim>\<open>os.path.join(a, b)\<close> for two components, as \<^verbatim>\<open>posixpath.join\<close> computes it.
\<close>

definition os_path_join :: "string \<Rightarrow> string \<Rightarrow> string" where
  "os_path_join a b =
     (if b \<noteq> [] \<and> hd b = CHR ''/'' then b
      else if a = [] \<or> last a = CHR ''/'' then a @ b
      else a @ ''/'' @ b)"

section \<open>\<^verbatim>\<open>Series.str.contains(pat, case=False)\<close>\<close>

text \<open>
  pandas calls \<^verbatim>\<open>str.contains\<close> with \<^verbatim>\<open>regex=True\<close> unless told otherwise: the
  pattern is compiled by \<^verbatim>\<open>re.compile(pat, flags=re.IGNORECASE)\<close> once, before any row
  is looked at, and a row matches when \<^verbatim>\<open>re.search\<close> finds the pattern somewhere
  in the field. A regular-expression engine is therefore a function from the
  pattern to either the exception of the compiler or the predicate that the
  compiled pattern decides. The gallery functions take the engine as their
  first argument \<open>re\<close>; what is proved for every \<open>re\<close> holds whatever Python's
  engine does with a pattern.
\<close>

type_synonym regex_engine = "string \<Rightarrow> py_error + (string \<Rightarrow> bool)"

text \<open>
  \<open>re_search\<close> is Python's engine on the patterns built from ordinary
  characters, which match themselves up to case, and the dot, which matches any
  character except a newline. \<open>re_special\<close> are the characters that
  \<^verbatim>\<open>re\<close> treats specially. A pattern using a special character other than
  the dot is outside this fragment; \<open>re_search\<close> answers \<open>ReError\<close> there, which
  is Python's answer for some of them only (\<^verbatim>\<open>(\<close>, \<^verbatim>\<open>[\<close>, \<^verbatim>\<open>*\<close>), so
  \<open>re_search\<close> is evaluated on patterns of the fragment only.
\<close>

definition re_special :: "char list" where
  "re_special = ''.^$*+?{}[]|()'' @ [CHR 0x5C]"

fun match_here :: "string \<Rightarrow> string \<Rightarrow> bool" where
  "match_here [] s = True"
| "match_here (p # ps) [] = False"
| "match_here (p # ps) (c # cs) =
     ((if p = CHR ''.'' then c \<noteq> CHR 0x0A else lower_char p = lower_char c)
      \<and> match_here ps cs)"

fun search_from :: "string \<Rightarrow> string \<Rightarrow> bool" where
  "search_from pat [] = match_here pat []"
| "search_from pat (c # cs) = (match_here pat (c # cs) \<or> search_from pat cs)"

definition re_search :: regex_engine where
  "re_search pat =
     (if \<exists>c \<in> set pat. c \<noteq> CHR ''.'' \<and> c \<in> set re_special then Inl ReError
      else Inr (search_from pat))"

section \<open>The table\<close>

text \<open>
  A cell of a numeric column is a number or pandas' missing value \<open>NaN\<close>; a cell
  of a categorical column is a string or missing (\<open>None\<close>). A row of the
  dataframe has the two required string columns, the mark, and its cells by
  column name. The dataframe keeps the \<^verbatim>\<open>RangeIndex\<close> that \<^verbatim>\<open>read_csv\<close> gave it, so
  the index label of a row is its position in \<open>df\<close>; \<^verbatim>\<open>reset_index()\<close> turns the
  label into a column of the view, the first component of a row of a view.
  Numeric columns are the columns of an integer or float dtype.
\<close>

datatype numv = NaN | Num real

record row =
  dir :: string
  file' :: string
  marked :: bool
  numeric :: "string \<Rightarrow> numv"
  category :: "string \<Rightarrow> string option"

type_synonym view = "(nat \<times> row) list"

text \<open>\<^verbatim>\<open>df[k] >= x\<close> and \<^verbatim>\<open>df[k] <= x\<close> on one cell: a comparison with \<open>NaN\<close> is false.\<close>

definition num_ge :: "numv \<Rightarrow> real \<Rightarrow> bool" where
  "num_ge v x = (case v of NaN \<Rightarrow> False | Num y \<Rightarrow> y \<ge> x)"

definition num_le :: "numv \<Rightarrow> real \<Rightarrow> bool" where
  "num_le v x = (case v of NaN \<Rightarrow> False | Num y \<Rightarrow> y \<le> x)"

definition IMAGES_PER_PAGE :: nat where
  "IMAGES_PER_PAGE = 4 * 5"

text \<open>
  \<^verbatim>\<open>math.ceil(n / d)\<close> for a length \<open>n\<close>. Python divides in floating point,
  which is exact for the lengths a table can have (below \<open>2 ^ 53\<close>); the model
  takes the exact quotient.
\<close>

definition ceil_div :: "nat \<Rightarrow> nat \<Rightarrow> int" where
  "ceil_div n d = \<lceil>real n / real d\<rceil>"

text \<open>
  The window state that the filter, mark and paging callbacks read and write.
  The filter widgets are represented by the values their variables hold:
  \<open>numeric_filters\<close> and \<open>category_filters\<close> are the two dictionaries in
  insertion order. The page labels hold the two numbers of \<^verbatim>\<open>Page i / n\<close>, the
  count label the two numbers of \<^verbatim>\<open>Filtered: a / b\<close> once it has a text,
  \<open>mark_btn\<close> the text of the mark button when it is enabled. The thumbnail
  grid and the thumbnail cache, which \<^verbatim>\<open>_render_page\<close> rebuilds from the page it
  is given, are not part of the record.
\<close>

record gallery =
  df :: "row list"
  filtered_df :: view
  page :: int
  marked_page :: int
  selected_index :: "nat option"
  numeric_keys :: "string list"
  category_keys :: "string list"
  numeric_filters :: "(string \<times> real \<times> real) list"
  category_filters :: "(string \<times> string) list"
  dir_search_var :: string
  file_search_var :: string
  hide_marked_var :: bool
  page_label :: "int \<times> int"
  marked_page_label :: "int \<times> int"
  count_label :: "(nat \<times> nat) option"
  mark_btn :: "string option"

text \<open>
  A callback either runs to its end or raises; Tk reports the exception and the
  window lives on in the state the callback left.
\<close>

datatype outcome = Done gallery | Raised py_error gallery

text \<open>The window after a callback, and the exception it raised, if any.\<close>

fun state_of :: "outcome \<Rightarrow> gallery" where
  "state_of (Done s) = s"
| "state_of (Raised e s) = s"

fun raised :: "outcome \<Rightarrow> py_error option" where
  "raised (Done s) = None"
| "raised (Raised e s) = Some e"

section \<open>Filtering\<close>

text \<open>\<^verbatim>\<open>self.df.copy()\<close> with its index labels.\<close>

definition indexed :: "row list \<Rightarrow> view" where
  "indexed rows = zip [0..<length rows] rows"

text \<open>The loop over \<^verbatim>\<open>self.numeric_filters.items()\<close>.\<close>

fun numeric_loop :: "(string \<times> real \<times> real) list \<Rightarrow> view \<Rightarrow> view" where
  "numeric_loop [] d = d"
| "numeric_loop ((k, mn, mx) # fs) d =
     numeric_loop fs
       (filter (\<lambda>e. num_ge (numeric (snd e) k) mn \<and> num_le (numeric (snd e) k) mx) d)"

text \<open>The loop over \<^verbatim>\<open>self.category_filters.items()\<close>.\<close>

fun category_loop :: "(string \<times> string) list \<Rightarrow> view \<Rightarrow> view" where
  "category_loop [] d = d"
| "category_loop ((k, var) # fs) d =
     category_loop fs
       (if var \<noteq> ''All'' then filter (\<lambda>e. category (snd e) k = Some var) d else d)"

text \<open>
  One of the two text filters: \<open>raw\<close> is the entry's text, \<open>field\<close> selects the
  column. Nothing is filtered, and nothing compiled, when the stripped query is
  empty.
\<close>

definition text_filter :: "regex_engine \<Rightarrow> string \<Rightarrow> (row \<Rightarrow> string) \<Rightarrow> view \<Rightarrow> py_error + view" where
  "text_filter re raw field d =
     (let q = lower (strip raw) in
      if q = [] then Inr d
      else (case re q of
              Inl e \<Rightarrow> Inl e
            | Inr m \<Rightarrow> Inr (filter (\<lambda>e. m (lower (field (snd e)))) d)))"

text \<open>The local \<^verbatim>\<open>df\<close> of \<^verbatim>\<open>_apply_filters\<close> when it reaches \<^verbatim>\<open>reset_index()\<close>.\<close>

definition filtered_rows :: "regex_engine \<Rightarrow> gallery \<Rightarrow> py_error + view" where
  "filtered_rows re s =
     (let d = category_loop (category_filters s)
                (numeric_loop (numeric_filters s) (indexed (df s))) in
      case text_filter re (dir_search_var s) dir d of
        Inl e \<Rightarrow> Inl e
      | Inr d1 \<Rightarrow>
          (case text_filter re (file_search_var s) file' d1 of
             Inl e \<Rightarrow> Inl e
           | Inr d2 \<Rightarrow>
               Inr (if hide_marked_var s then filter (\<lambda>e. marked (snd e) = False) d2 else d2)))"

text \<open>
  The columns of the dataframe besides \<^verbatim>\<open>dir\<close>, \<^verbatim>\<open>file\<close>, \<^verbatim>\<open>__marked__\<close> and
  \<^verbatim>\<open>Unnamed: 0\<close> are the numeric and the category keys, which \<^verbatim>\<open>_load_dataframe\<close>
  computed from the columns and which nothing changes afterwards.
\<close>

definition data_column :: "gallery \<Rightarrow> string \<Rightarrow> bool" where
  "data_column s c = (c \<in> set (numeric_keys s) \<or> c \<in> set (category_keys s))"

text \<open>
  \<^verbatim>\<open>df.reset_index()\<close> inserts the index labels as a new first column. The column
  is named \<^verbatim>\<open>index\<close>, or \<^verbatim>\<open>level_0\<close> when the dataframe already has a column
  \<^verbatim>\<open>index\<close>; when it has a column of the chosen name the insertion raises
  \<^verbatim>\<open>ValueError\<close>. The rows of the result are the rows it was given, each
  with its label.
\<close>

definition reset_index :: "gallery \<Rightarrow> view \<Rightarrow> py_error + view" where
  "reset_index s d =
     (if data_column s ''index'' \<and> data_column s ''level_0'' then Inl ValueError else Inr d)"

section \<open>The row predicates of the filter panel\<close>

text \<open>
  What each group of filter widgets asks of a single row: every numeric filter
  holds the cell within its two bounds, every category filter is at \<^verbatim>\<open>All\<close> or
  equals the cell, and a text query is empty after stripping or is found by the
  engine in the lower-cased field. \<open>row_visible\<close> is their conjunction together
  with the hide-marked checkbox.
\<close>

definition passes_numeric :: "(string \<times> real \<times> real) list \<Rightarrow> row \<Rightarrow> bool" where
  "passes_numeric nf r =
     list_all (\<lambda>f. num_ge (numeric r (fst f)) (fst (snd f))
                  \<and> num_le (numeric r (fst f)) (snd (snd f))) nf"

definition passes_category :: "(string \<times> string) list \<Rightarrow> row \<Rightarrow> bool" where
  "passes_category cf r =
     list_all (\<lambda>f. snd f = ''All'' \<or> category r (fst f) = Some (snd f)) cf"

definition passes_text :: "regex_engine \<Rightarrow> string \<Rightarrow> string \<Rightarrow> bool" where
  "passes_text re raw v =
     (let q = lower (strip raw) in
      q = [] \<or> (case re q of Inl e \<Rightarrow> False | Inr m \<Rightarrow> m (lower v)))"

definition row_visible :: "regex_engine \<Rightarrow> gallery \<Rightarrow> row \<Rightarrow> bool" where
  "row_visible re s r =
     (passes_numeric (numeric_filters s) r
      \<and> passes_category (category_filters s) r
      \<and> passes_text re (dir_search_var s) (dir r)
      \<and> passes_text re (file_search_var s) (file' r)
      \<and> (hide_marked_var s \<longrightarrow> \<not> marked r))"

section \<open>Rendering and labels\<close>

definition max_page_of :: "nat \<Rightarrow> int" where
  "max_page_of n = max 0 (ceil_div n IMAGES_PER_PAGE - 1)"

definition total_pages :: "nat \<Rightarrow> int" where
  "total_pages n = max 1 (ceil_div n IMAGES_PER_PAGE)"

definition marked_count :: "gallery \<Rightarrow> nat" where
  "marked_count s = length (filter marked (df s))"

definition render_gallery :: "gallery \<Rightarrow> gallery" where
  "render_gallery s = s\<lparr>page_label := (page s + 1, total_pages (length (filtered_df s)))\<rparr>"

definition render_marked :: "gallery \<Rightarrow> gallery" where
  "render_marked s = s\<lparr>marked_page_label := (marked_page s + 1, total_pages (marked_count s))\<rparr>"

definition update_counts :: "gallery \<Rightarrow> gallery" where
  "update_counts s = s\<lparr>count_label := Some (length (filtered_df s), length (df s))\<rparr>"

text \<open>\<^verbatim>\<open>self.df.loc[i]\<close> raises \<^verbatim>\<open>KeyError\<close> for a label that is not in the index.\<close>

definition update_info :: "gallery \<Rightarrow> outcome" where
  "update_info s =
     (case selected_index s of
        None \<Rightarrow> Done (s\<lparr>mark_btn := None\<rparr>)
      | Some i \<Rightarrow>
          if i < length (df s)
          then Done (s\<lparr>mark_btn := Some (if marked (df s ! i) then ''Unmark'' else ''Mark'')\<rparr>)
          else Raised KeyError (s\<lparr>mark_btn := None\<rparr>))"

text \<open>\<^verbatim>\<open>_select_row(idx)\<close> for an \<open>idx\<close> that is a label of the index type.\<close>

definition select_row :: "gallery \<Rightarrow> nat \<Rightarrow> outcome" where
  "select_row s idx = update_info (s\<lparr>selected_index := Some idx\<rparr>)"

text \<open>
  \<^verbatim>\<open>_apply_filters\<close>. An exception of the text filters or of \<^verbatim>\<open>reset_index()\<close>
  leaves the window as it was, since nothing was assigned yet. The later
  \<^verbatim>\<open>reset_index()\<close> of \<^verbatim>\<open>_render_marked\<close> is on the same columns, so it is reached
  only where this one did not raise.
\<close>

definition apply_filters :: "regex_engine \<Rightarrow> bool \<Rightarrow> gallery \<Rightarrow> outcome" where
  "apply_filters re reset_page s =
     (case filtered_rows re s of
        Inl e \<Rightarrow> Raised e s
      | Inr d0 \<Rightarrow>
          (case reset_index s d0 of
             Inl e \<Rightarrow> Raised e s
           | Inr d \<Rightarrow>
               (let s1 = s\<lparr>filtered_df := d\<rparr>;
                    max_page = max_page_of (length (filtered_df s1));
                    s2 = s1\<lparr>page := min (page s1) max_page\<rparr>;
                    s3 = (if reset_page then s2\<lparr>page := 0\<rparr> else s2);
                    s4 = s3\<lparr>selected_index := None\<rparr>
                in update_info (update_counts (render_marked (render_gallery s4))))))"

section \<open>Marking\<close>

definition toggle_mark :: "regex_engine \<Rightarrow> gallery \<Rightarrow> outcome" where
  "toggle_mark re s =
     (case selected_index s of
        None \<Rightarrow> Done s
      | Some i \<Rightarrow>
          if i < length (df s)
          then apply_filters re False
                 (s\<lparr>df := (df s)[i := (df s ! i)\<lparr>marked := \<not> marked (df s ! i)\<rparr>]\<rparr>)
          else Raised KeyError s)"

text \<open>
  The entry of \<^verbatim>\<open>self.filtered_df["index"]\<close> for a row of the view, as a label of
  \<open>df\<close>, or \<open>None\<close> when it is no label of \<open>df\<close>. Without a data column
  \<^verbatim>\<open>index\<close> the entry is the row's own label. With one, the labels are in
  \<^verbatim>\<open>level_0\<close> and the entry is the cell of the data column: a number is a label
  when it equals one (the integer labels and float keys are compared as
  floats), a missing value and a string are not.
\<close>

definition index_column :: "gallery \<Rightarrow> nat \<times> row \<Rightarrow> nat option" where
  "index_column s e =
     (if ''index'' \<in> set (numeric_keys s) then
        (case numeric (snd e) ''index'' of
           NaN \<Rightarrow> None
         | Num x \<Rightarrow>
             (let k = nat \<lfloor>x\<rfloor> in if real k = x \<and> k < length (df s) then Some k else None))
      else if ''index'' \<in> set (category_keys s) then None
      else if fst e < length (df s) then Some (fst e) else None)"

text \<open>
  \<^verbatim>\<open>self.df.loc[keys, "__marked__"] = True\<close> raises \<^verbatim>\<open>KeyError\<close>, and sets nothing,
  when a key is no label of \<open>df\<close>; otherwise it sets the mark of every row
  whose label is among the keys.
\<close>

definition mark_all_filtered :: "regex_engine \<Rightarrow> gallery \<Rightarrow> outcome" where
  "mark_all_filtered re s =
     (let keys = map (index_column s) (filtered_df s) in
      if None \<in> set keys then Raised KeyError s
      else apply_filters re False
             (s\<lparr>df := map (\<lambda>e. if Some (fst e) \<in> set keys then (snd e)\<lparr>marked := True\<rparr>
                                  else snd e)
                         (indexed (df s))\<rparr>))"

definition clear_marked :: "regex_engine \<Rightarrow> gallery \<Rightarrow> outcome" where
  "clear_marked re s = apply_filters re False (s\<lparr>df := map (\<lambda>r. r\<lparr>marked := False\<rparr>) (df s)\<rparr>)"

section \<open>Pagination\<close>

definition next_page :: "gallery \<Rightarrow> gallery" where
  "next_page s =
     (let max_page = max_page_of (length (filtered_df s)) in
      if page s < max_page then render_gallery (s\<lparr>page := page s + 1\<rparr>) else s)"

definition prev_page :: "gallery \<Rightarrow> gallery" where
  "prev_page s = (if page s > 0 then render_gallery (s\<lparr>page := page s - 1\<rparr>) else s)"

definition next_marked_page :: "gallery \<Rightarrow> gallery" where
  "next_marked_page s =
     (if (marked_page s + 1) * int IMAGES_PER_PAGE < int (marked_count s)
      then render_marked (s\<lparr>marked_page := marked_page s + 1\<rparr>) else s)"

definition prev_marked_page :: "gallery \<Rightarrow> gallery" where
  "prev_marked_page s =
     (if marked_page s > 0 then render_marked (s\<lparr>marked_page := marked_page s - 1\<rparr>) else s)"

section \<open>Export of the marked rows\<close>

text \<open>A message box: title and text.\<close>

datatype notice = ShowInfo string string | ShowError string string

text \<open>\<^verbatim>\<open>str(n)\<close> of a length.\<close>

function str_nat :: "nat \<Rightarrow> string" where
  "str_nat n =
     (if n < 10 then [''0123456789'' ! n]
      else str_nat (n div 10) @ [''0123456789'' ! (n mod 10)])"
  by pat_completeness auto
termination
  by (relation "measure id") auto

text \<open>The loop over \<^verbatim>\<open>marked_df.iterrows()\<close>; \<open>buf\<close> is what the file holds so far.\<close>

fun write_rows :: "row list \<Rightarrow> string \<Rightarrow> string" where
  "write_rows [] buf = buf"
| "write_rows (r # rs) buf = write_rows rs (buf @ os_path_join (dir r) (file' r) @ [CHR 0x0A])"

text \<open>
  \<open>save_path\<close> is the answer of the save dialog (empty when it was cancelled),
  \<open>open_error\<close> the message of the exception when \<^verbatim>\<open>open(path, "w")\<close> raises, and
  \<open>fs\<close> the text files on disk by path. The result is the message boxes shown
  and the files afterwards.
\<close>

definition export_marked_txt :: "gallery \<Rightarrow> string \<Rightarrow> string option \<Rightarrow> (string \<rightharpoonup> string) \<Rightarrow> notice list \<times> (string \<rightharpoonup> string)" where
  "export_marked_txt s save_path open_error fs =
     (let marked_df = filter marked (df s) in
      if marked_df = [] then ([ShowInfo ''Export'' ''No marked files to export.''], fs)
      else if save_path = [] then ([], fs)
      else (case open_error of
              Some msg \<Rightarrow> ([ShowError ''Error'' msg], fs)
            | None \<Rightarrow>
                ([ShowInfo ''Export complete''
                    (''Exported '' @ str_nat (length marked_df) @ '' file paths.'')],
                 fs(save_path \<mapsto> write_rows marked_df []))))"

section \<open>Start-up\<close>

text \<open>
  What the constructor finds: the answer of the open dialog (empty when it was
  cancelled) and what \<^verbatim>\<open>pd.read_csv\<close> makes of the file: an exception, or the
  columns in file order, each with the answer of \<^verbatim>\<open>is_numeric_dtype\<close>, and the rows.
\<close>

record csv_table =
  columns :: "(string \<times> bool) list"
  rows :: "row list"

record launch =
  chosen_path :: string
  read_csv :: "py_error + csv_table"

text \<open>What the user can observe of the start-up, and which phase was entered.\<close>

datatype ui_event = Destroy | ErrorBox string string | Call string

text \<open>
  The window after \<^verbatim>\<open>_load_dataframe\<close> has returned: what happened so far, whether
  \<^verbatim>\<open>self.destroy()\<close> was called, and the dataframe with \<open>numeric_keys\<close> and
  \<open>category_keys\<close> when they were assigned.
\<close>

record boot =
  shown :: "ui_event list"
  destroyed :: bool
  loaded :: "(row list \<times> string list \<times> string list) option"

definition reserved_columns :: "string list" where
  "reserved_columns = [''dir'', ''file'', ''__marked__'', ''Unnamed: 0'']"

definition load_dataframe :: "launch \<Rightarrow> py_error + boot" where
  "load_dataframe env =
     (if chosen_path env = [] then Inr \<lparr>shown = [Destroy], destroyed = True, loaded = None\<rparr>
      else (case read_csv env of
              Inl e \<Rightarrow> Inl e
            | Inr t \<Rightarrow>
                (let cols = map fst (columns t) in
                 if \<not> set [''dir'', ''file''] \<subseteq> set cols
                 then Inr \<lparr>shown = [ErrorBox ''Error''
                                       (''Dataframe must contain '' @ [CHR 0x27] @ ''dir'' @ [CHR 0x27]
                                        @ '' and '' @ [CHR 0x27] @ ''file'' @ [CHR 0x27]),
                                     Destroy],
                           destroyed = True, loaded = None\<rparr>
                 else
                   (let rs = (if ''__marked__'' \<in> set cols then rows t
                              else map (\<lambda>r. r\<lparr>marked := False\<rparr>) (rows t));
                        nk = map fst (filter (\<lambda>c. fst c \<notin> set reserved_columns \<and> snd c) (columns t));
                        ck = filter (\<lambda>c. c \<notin> set reserved_columns \<and> c \<notin> set nk) cols
                    in Inr \<lparr>shown = [], destroyed = False, loaded = Some (rs, nk, ck)\<rparr>))))"

text \<open>
  \<^verbatim>\<open>_build_layout\<close> starts with \<^verbatim>\<open>tk.PanedWindow(self, ...)\<close>; Tk refuses to create a
  widget once the application has been destroyed. Otherwise the filter panel
  gets one pair of sliders, at 0 and 1, for every numeric key, and one combobox,
  at \<^verbatim>\<open>All\<close>, for every category key; \<open>fresh_window\<close> is the window with
  the attributes as the constructor and the layout code assign them.
\<close>

definition fresh_window :: "row list \<Rightarrow> string list \<Rightarrow> string list \<Rightarrow> gallery" where
  "fresh_window rs nk ck =
     \<lparr>df = rs, filtered_df = [], page = 0, marked_page = 0, selected_index = None,
      numeric_keys = nk, category_keys = ck,
      numeric_filters = map (\<lambda>k. (k, 0, 1)) nk,
      category_filters = map (\<lambda>k. (k, ''All'')) ck,
      dir_search_var = [], file_search_var = [], hide_marked_var = False,
      page_label = (1, 1), marked_page_label = (1, 1), count_label = None,
      mark_btn = None\<rparr>"

definition build_layout :: "boot \<Rightarrow> py_error + gallery" where
  "build_layout b =
     (if destroyed b then Inl TclError
      else (case loaded b of
              None \<Rightarrow> Inl AttributeError
            | Some t \<Rightarrow> Inr (fresh_window (fst t) (fst (snd t)) (snd (snd t)))))"

text \<open>
  \<^verbatim>\<open>ImageGallery.__init__\<close>: the three calls in a row, whatever the first one did.
  The result is what was shown and entered, and the window or the exception
  that ended the constructor.
\<close>

definition init :: "regex_engine \<Rightarrow> launch \<Rightarrow> ui_event list \<times> (py_error + gallery)" where
  "init re env =
     (case load_dataframe env of
        Inl e \<Rightarrow> ([Call ''_load_dataframe''], Inl e)
      | Inr b \<Rightarrow>
          (case build_layout b of
             Inl e \<Rightarrow> (Call ''_load_dataframe'' # shown b @ [Call ''_build_layout''], Inl e)
           | Inr s \<Rightarrow>
               (Call ''_load_dataframe'' # shown b @ [Call ''_build_layout'', Call ''_apply_filters''],
                (case apply_filters re True s of
                   Done s' \<Rightarrow> Inr s'
                 | Raised e s' \<Rightarrow> Inl e))))"

section \<open>A small dataset\<close>

text \<open>
  Three images with one numeric column \<^verbatim>\<open>score\<close> and one categorical column
  \<^verbatim>\<open>kind\<close>; the second row has no score, the third comes marked from the file.
\<close>

definition demo_row :: "string \<Rightarrow> string \<Rightarrow> bool \<Rightarrow> numv \<Rightarrow> row" where
  "demo_row d f m v =
     \<lparr>dir = d, file' = f, marked = m, numeric = (\<lambda>k. v), category = (\<lambda>k. Some ''pet'')\<rparr>"

definition demo_table :: "row list" where
  "demo_table =
     [demo_row ''cats'' ''a.png'' False (Num (1 / 2)),
      demo_row ''dogs'' ''b.png'' False NaN,
      demo_row ''Cats2'' ''c.png'' True (Num 1)]"

definition demo_csv :: launch where
  "demo_csv =
     \<lparr>chosen_path = ''demo.csv'',
      read_csv = Inr \<lparr>columns = [(''dir'', False), (''file'', False), (''score'', True),
                                 (''kind'', False), (''__marked__'', True)],
                      rows = demo_table\<rparr>\<rparr>"

definition demo :: gallery where
  "demo = fresh_window demo_table [''score''] [''kind'']"

text \<open>
  \<open>demo_filtered\<close> is the window after the filters were applied to \<open>demo\<close>,
  \<open>demo_selected\<close> the window after a click on the first thumbnail.
\<close>

definition demo_filtered :: gallery where
  "demo_filtered =
     demo\<lparr>filtered_df := [(0, demo_table ! 0), (2, demo_table ! 2)], count_label := Some (2, 3)\<rparr>"

definition demo_selected :: gallery where
  "demo_selected = demo_filtered\<lparr>selected_index := Some 0, mark_btn := Some ''Mark''\<rparr>"

text \<open>
  \<open>many\<close> is a window over twenty-one unmarked images. In \<open>many_marked\<close> the
  filters were applied, all twenty-one rows were marked with the button for it,
  and the Marked tab was turned to its second page.
\<close>

definition many :: gallery where
  "many = fresh_window (replicate 21 (demo_row ''cats'' ''a.png'' False (Num (1 / 2))))
            [''score''] [''kind'']"

definition many_marked :: gallery where
  "many_marked =
     next_marked_page
       (state_of (mark_all_filtered re_search (state_of (apply_filters re_search True many))))"

text \<open>
  A file that was saved with its index as a column: \<^verbatim>\<open>index,dir,file\<close> with the
  rows \<^verbatim>\<open>1,x,a.png\<close> and \<^verbatim>\<open>1,y,b.png\<close>. \<open>saved\<close> is the window that start-up
  leaves with it, \<open>saved_x\<close> the window after \<^verbatim>\<open>x\<close> was typed into the entry for
  the directory and the filters were applied, \<open>saved_marked\<close> the window after
  the button that marks all filtered rows.
\<close>

definition saved_csv :: launch where
  "saved_csv =
     \<lparr>chosen_path = ''saved.csv'',
      read_csv = Inr \<lparr>columns = [(''index'', True), (''dir'', False), (''file'', False)],
                      rows = [demo_row ''x'' ''a.png'' False (Num 1),
                              demo_row ''y'' ''b.png'' False (Num 1)]\<rparr>\<rparr>"

definition saved :: gallery where
  "saved = (case snd (init re_search saved_csv) of Inr s \<Rightarrow> s | Inl e \<Rightarrow> fresh_window [] [] [])"

definition saved_x :: gallery where
  "saved_x = state_of (apply_filters re_search True (saved\<lparr>dir_search_var := ''x''\<rparr>))"

definition saved_marked :: gallery where
  "saved_marked = state_of (mark_all_filtered re_search saved_x)"

section \<open>Evaluation\<close>

declare cleanup.simps [simp del]
declare str_nat.simps [simp del]

lemma ceil_div_code: "ceil_div n d = - (- int n div int d)"
  unfolding ceil_div_def using ceiling_divide_eq_div [of "int n" "int d"] by simp

lemma indexed_Nil: "indexed [] = []"
  by (simp add: indexed_def)

lemma indexed_Cons:
  "indexed (r # rs) = (0, r) # map (\<lambda>e. (Suc (fst e), snd e)) (indexed rs)"
proof -
  have "[0..<Suc (length rs)] = 0 # map Suc [0..<length rs]"
    by (simp only: upt_conv_Cons [OF zero_less_Suc] map_Suc_upt)
  then show ?thesis
    by (simp add: indexed_def zip_map1 case_prod_beta del: upt_Suc)
qed

lemmas gallery_eval =
  init_def load_dataframe_def build_layout_def reserved_columns_def Let_def
  apply_filters_def filtered_rows_def fresh_window_def indexed_Nil indexed_Cons
  text_filter_def lower_def strip_def isspace_def lower_char_def re_search_def re_special_def
  num_ge_def num_le_def update_info_def update_counts_def select_row_def
  render_gallery_def render_marked_def max_page_of_def total_pages_def ceil_div_code
  marked_count_def IMAGES_PER_PAGE_def
  toggle_mark_def mark_all_filtered_def clear_marked_def
  data_column_def reset_index_def index_column_def
  next_page_def prev_page_def next_marked_page_def prev_marked_page_def
  demo_def demo_table_def demo_row_def demo_csv_def demo_filtered_def demo_selected_def

section \<open>The thumbnail cache is a bounded LRU cache\<close>


lemma map_of_replace:
  "map_of d k \<noteq> None \<Longrightarrow> map_of (map (\<lambda>e. if fst e = k then (k, v) else e) d) k = Some v"
  by (induction d) auto

lemma filter_replace:
  "filter (\<lambda>e. fst e \<noteq> k) (map (\<lambda>e. if fst e = k then (k, v) else e) d)
   = filter (\<lambda>e. fst e \<noteq> k) d"
  by (induction d) auto

lemma map_of_filter_other: "map_of (filter (\<lambda>e. fst e \<noteq> k) d) k = None"
  by (induction d) auto

lemma map_of_setitem:
  "map_of (od_setitem d k v) k = Some v"
  by (simp add: od_setitem_def od_contains_def map_of_replace map_add_def)

lemma filter_setitem:
  "filter (\<lambda>e. fst e \<noteq> k) (od_setitem d k v) = filter (\<lambda>e. fst e \<noteq> k) d"
  by (simp add: od_setitem_def filter_replace)

lemma move_to_end_setitem:
  "od_move_to_end (od_setitem d k v) k = Inr (filter (\<lambda>e. fst e \<noteq> k) d @ [(k, v)])"
  by (simp add: od_move_to_end_def map_of_setitem filter_setitem)

lemma cleanup_drop:
  "0 \<le> max_size tc \<Longrightarrow>
   cleanup tc = Inr (tc\<lparr>cache := drop (length (cache tc) - nat (max_size tc)) (cache tc)\<rparr>)"
proof (induction tc rule: cleanup.induct)
  case (1 tc)
  show ?case
  proof (cases "int (length (cache tc)) > max_size tc")
    case False
    then show ?thesis by (subst cleanup.simps) simp
  next
    case True
    with "1.prems" obtain e d' where d: "cache tc = e # d'"
      by (cases "cache tc") auto
    have pop: "od_popitem_first (cache tc) = Inr (e, d')"
      by (simp add: od_popitem_first_def d)
    have "cleanup (tc\<lparr>cache := d'\<rparr>) =
          Inr (tc\<lparr>cache := d'\<rparr>\<lparr>cache := drop (length d' - nat (max_size tc)) d'\<rparr>)"
      using "1.IH"[OF True pop] "1.prems" by simp
    moreover have "drop (length (cache tc) - nat (max_size tc)) (cache tc)
                   = drop (length d' - nat (max_size tc)) d'"
      using True "1.prems" by (simp add: d Suc_diff_le drop_Cons')
    ultimately show ?thesis
      using True pop by (subst cleanup.simps) simp
  qed
qed

lemma put_result:
  "0 \<le> max_size tc \<Longrightarrow>
   put tc k img t =
     Inr (tc\<lparr>cache := drop (length (filter (\<lambda>e. fst e \<noteq> k) (cache tc) @ [(k, (img, t))])
                               - nat (max_size tc))
                         (filter (\<lambda>e. fst e \<noteq> k) (cache tc) @ [(k, (img, t))])\<rparr>)"
  by (simp add: put_def move_to_end_setitem cleanup_drop)

lemma get_miss: "map_of (cache tc) k = None \<Longrightarrow> get tc k = Inr (None, tc)"
  by (simp add: get_def od_contains_def)

lemma get_hit:
  "map_of (cache tc) k = Some v \<Longrightarrow>
   get tc k = Inr (Some (fst v), tc\<lparr>cache := filter (\<lambda>e. fst e \<noteq> k) (cache tc) @ [(k, v)]\<rparr>)"
  by (simp add: get_def od_contains_def od_move_to_end_def map_of_filter_other map_add_def)

lemma remdups_snoc: "remdups (xs @ [x]) = removeAll x (remdups xs) @ [x]"
  by (induction xs) auto

lemma take_removeAll_take:
  "distinct xs \<Longrightarrow> take n (removeAll k (take (Suc n) xs)) = take n (removeAll k xs)"
proof (induction xs arbitrary: n)
  case Nil
  then show ?case by simp
next
  case (Cons a xs)
  show ?case
  proof (cases "a = k")
    case True
    with Cons.prems have "k \<notin> set xs" by simp
    then have "k \<notin> set (take n xs)"
      by (auto dest: in_set_takeD)
    with \<open>k \<notin> set xs\<close> have "removeAll k xs = xs" "removeAll k (take n xs) = take n xs"
      by simp_all
    with True show ?thesis by simp
  next
    case False
    show ?thesis
    proof (cases n)
      case 0
      then show ?thesis by simp
    next
      case (Suc m)
      with False Cons show ?thesis by simp
    qed
  qed
qed

lemma take_touch:
  "distinct xs \<Longrightarrow> take n (k # removeAll k (take n xs)) = take n (k # removeAll k xs)"
  by (cases n) (simp_all add: take_removeAll_take)

lemma keys_filter: "map fst (filter (\<lambda>e. fst e \<noteq> k) d) = removeAll k (map fst d)"
  by (induction d) auto


lemma rev_removeAll: "rev (removeAll k xs) = removeAll k (rev xs)"
  by (induction xs) auto

lemma rev_drop_last: "rev (drop (length xs - n) xs) = take n (rev xs)"
  by (cases "n \<le> length xs") (simp_all add: rev_drop)

lemma length_touch:
  "distinct xs \<Longrightarrow> k \<in> set xs \<Longrightarrow> length (k # removeAll k xs) = length xs"
  by (simp add: distinct_remove1_removeAll [symmetric] length_remove1)
     (cases xs, auto)

lemma put_inv:
  assumes N: "0 \<le> max_size tc"
    and inv: "rev (map fst (cache tc)) = take (nat (max_size tc)) (rev (remdups T))"
  shows "\<exists>tc'. put tc k img t = Inr tc' \<and> max_size tc' = max_size tc
          \<and> rev (map fst (cache tc')) = take (nat (max_size tc)) (rev (remdups (T @ [k])))"
proof -
  let ?N = "nat (max_size tc)"
  let ?R = "rev (remdups T)"
  let ?d = "filter (\<lambda>e. fst e \<noteq> k) (cache tc) @ [(k, (img, t))]"
  have "rev (map fst (drop (length ?d - ?N) ?d)) = take ?N (rev (map fst ?d))"
    using rev_drop_last [of "map fst ?d" ?N] by (simp only: length_map drop_map)
  also have "rev (map fst ?d) = k # removeAll k (rev (map fst (cache tc)))"
    by (simp add: keys_filter rev_removeAll)
  also have "take ?N (k # removeAll k (rev (map fst (cache tc)))) = take ?N (k # removeAll k ?R)"
    unfolding inv by (rule take_touch) simp
  also have "k # removeAll k ?R = rev (remdups (T @ [k]))"
    by (simp add: remdups_snoc rev_removeAll)
  finally show ?thesis
    using put_result [OF N, of k img t] by simp
qed

lemma get_inv:
  assumes inv: "rev (map fst (cache tc)) = take (nat (max_size tc)) (rev (remdups T))"
  shows "\<exists>r tc'. get tc k = Inr (r, tc') \<and> max_size tc' = max_size tc
          \<and> rev (map fst (cache tc')) =
              take (nat (max_size tc)) (rev (remdups (T @ (case r of None \<Rightarrow> [] | Some _ \<Rightarrow> [k]))))"
proof (cases "map_of (cache tc) k")
  case None
  then show ?thesis using inv by (simp add: get_miss)
next
  case (Some v)
  let ?N = "nat (max_size tc)"
  let ?R = "rev (remdups T)"
  let ?C = "take ?N ?R"
  have "k \<in> set (map fst (cache tc))"
    using map_of_SomeD [OF Some] by force
  then have "k \<in> set (rev (map fst (cache tc)))"
    by simp
  then have kin: "k \<in> set ?C"
    unfolding inv .
  have dC: "distinct ?C" by simp
  have "rev (map fst (filter (\<lambda>e. fst e \<noteq> k) (cache tc) @ [(k, v)])) = k # removeAll k ?C"
    by (simp add: keys_filter rev_removeAll inv)
  also have "\<dots> = take ?N (k # removeAll k ?C)"
    using length_touch [OF dC kin] by simp
  also have "\<dots> = take ?N (k # removeAll k ?R)"
    by (rule take_touch) simp
  also have "k # removeAll k ?R = rev (remdups (T @ [k]))"
    by (simp add: remdups_snoc rev_removeAll)
  finally show ?thesis
    by (simp add: get_hit [OF Some])
qed

lemma run_op_inv:
  assumes N: "0 \<le> max_size tc"
    and inv: "rev (map fst (cache tc)) = take (nat (max_size tc)) (rev (remdups T))"
  shows "\<exists>tc' ks. run_op tc op = Inr (tc', ks) \<and> max_size tc' = max_size tc
          \<and> rev (map fst (cache tc')) = take (nat (max_size tc)) (rev (remdups (T @ ks)))"
proof (cases op)
  case (Get k)
  from get_inv [OF inv, of k] obtain r tc' where
    "get tc k = Inr (r, tc')" "max_size tc' = max_size tc"
    "rev (map fst (cache tc')) =
       take (nat (max_size tc)) (rev (remdups (T @ (case r of None \<Rightarrow> [] | Some _ \<Rightarrow> [k]))))"
    by blast
  then show ?thesis by (simp add: run_op_def Get)
next
  case (Put k img t)
  from put_inv [OF N inv, of k img t] show ?thesis
    by (auto simp: run_op_def Put)
qed

lemma run_ops_inv:
  assumes "0 \<le> max_size tc"
    and "rev (map fst (cache tc)) = take (nat (max_size tc)) (rev (remdups T))"
  shows "\<exists>tc' ks. run_ops tc ops = Inr (tc', ks) \<and> max_size tc' = max_size tc
          \<and> rev (map fst (cache tc')) = take (nat (max_size tc)) (rev (remdups (T @ ks)))"
  using assms
proof (induction ops arbitrary: tc T)
  case Nil
  then show ?case by simp
next
  case (Cons op ops)
  from run_op_inv [OF Cons.prems, of op] obtain tc1 ks1 where
    s1: "run_op tc op = Inr (tc1, ks1)" and m1: "max_size tc1 = max_size tc"
    and i1: "rev (map fst (cache tc1)) = take (nat (max_size tc)) (rev (remdups (T @ ks1)))"
    by blast
  from Cons.IH [of tc1 "T @ ks1"] Cons.prems(1) m1 i1 obtain tc2 ks2 where
    s2: "run_ops tc1 ops = Inr (tc2, ks2)" and m2: "max_size tc2 = max_size tc"
    and i2: "rev (map fst (cache tc2)) = take (nat (max_size tc)) (rev (remdups (T @ ks1 @ ks2)))"
    by auto
  show ?case using s1 s2 m2 i2 by simp
qed

lemma run_puts_touched:
  "run_ops tc (map (\<lambda>e. Put (fst e) (fst (snd e)) (snd (snd e))) es) = Inr (tc', ks)
   \<Longrightarrow> ks = map fst es"
proof (induction es arbitrary: tc ks)
  case Nil
  then show ?case by simp
next
  case (Cons e es)
  then show ?case
    by (auto simp: run_op_def split: sum.splits)
qed

text \<open>
  Claim C1. For a cache of capacity \<open>N \<ge> 0\<close> that starts empty: every sequence of
  \<open>get\<close> and \<open>put\<close> calls runs without an exception and leaves at most \<open>N\<close>
  entries, and the keys present, from the most recently used end, are the \<open>N\<close>
  most recently touched keys (a touch is a \<open>put\<close> or a \<open>get\<close> that found its
  key). In particular, after \<open>put\<close> calls for \<open>N + k\<close> distinct keys, with
  whatever images and clock readings, exactly \<open>N\<close> entries are present and their
  keys are the last \<open>N\<close> keys put.
\<close>

theorem cache_capacity_lru:
  assumes "0 \<le> N"
  shows "(\<exists>tc ks. run_ops (ThumbnailCache N) ops = Inr (tc, ks)
            \<and> int (length (cache tc)) \<le> N
            \<and> rev (map fst (cache tc)) = take (nat N) (rev (remdups ks)))
         \<and> (distinct (map fst es) \<and> length es = nat N + k \<longrightarrow>
              (\<exists>tc ks. run_ops (ThumbnailCache N)
                          (map (\<lambda>e. Put (fst e) (fst (snd e)) (snd (snd e))) es) = Inr (tc, ks)
                 \<and> length (cache tc) = nat N
                 \<and> map fst (cache tc) = drop k (map fst es)))"
proof (intro conjI impI)
  from run_ops_inv [of "ThumbnailCache N" "[]" ops] assms obtain tc ks where
    r: "run_ops (ThumbnailCache N) ops = Inr (tc, ks)"
    and i: "rev (map fst (cache tc)) = take (nat N) (rev (remdups ks))"
    by (auto simp: ThumbnailCache_def)
  from i have "length (cache tc) \<le> nat N"
    by (metis length_map length_rev length_take min.cobounded2)
  with r i assms show "\<exists>tc ks. run_ops (ThumbnailCache N) ops = Inr (tc, ks)
           \<and> int (length (cache tc)) \<le> N
           \<and> rev (map fst (cache tc)) = take (nat N) (rev (remdups ks))"
    by auto
next
  assume "distinct (map fst es) \<and> length es = nat N + k"
  then have d: "distinct (map fst es)" and l: "length es = nat N + k"
    by simp_all
  let ?ops = "map (\<lambda>e. Put (fst e) (fst (snd e)) (snd (snd e))) es"
  from run_ops_inv [of "ThumbnailCache N" "[]" ?ops] assms obtain tc ks where
    r: "run_ops (ThumbnailCache N) ?ops = Inr (tc, ks)"
    and i: "rev (map fst (cache tc)) = take (nat N) (rev (remdups ks))"
    by (auto simp: ThumbnailCache_def)
  have ks: "ks = map fst es" by (rule run_puts_touched [OF r])
  have "map fst (cache tc) = rev (take (nat N) (rev (map fst es)))"
    using i distinct_remdups_id [OF d] by (simp add: ks rev_swap)
  also have "\<dots> = drop k (map fst es)"
    using l by (simp add: take_rev)
  finally have k: "map fst (cache tc) = drop k (map fst es)" .
  then have "length (cache tc) = nat N"
    using l by (metis add_diff_cancel_right' length_drop length_map)
  with r k show "\<exists>tc ks. run_ops (ThumbnailCache N) ?ops = Inr (tc, ks)
           \<and> length (cache tc) = nat N
           \<and> map fst (cache tc) = drop k (map fst es)"
    by blast
qed

theorem cache_capacity_lru_witness:
  "(0::int) \<le> 2
   \<and> run_ops (ThumbnailCache 2)
        [Put ''a'' (1::nat) 30, Put ''b'' 2 20, Get ''a'', Put ''c'' 3 10]
      = Inr (\<lparr>cache = [(''a'', 1, 30), (''c'', 3, 10)], max_size = 2\<rparr>, [''a'', ''b'', ''a'', ''c''])
   \<and> (\<exists>tc ks. run_ops (ThumbnailCache 2)
                  [Put ''a'' (1::nat) 30, Put ''b'' 2 20, Put ''c'' 3 10] = Inr (tc, ks)
         \<and> length (cache tc) = 2 \<and> map fst (cache tc) = [''b'', ''c''])"
  using cache_capacity_lru [of 2 "[Put ''a'' (1::nat) 30, Put ''b'' 2 20, Get ''a'', Put ''c'' 3 10]"
          "[(''a'', (1::nat), 30), (''b'', 2, 20), (''c'', 3, 10)]" 1]
  by (simp add: run_op_def put_result get_def od_contains_def od_move_to_end_def
        ThumbnailCache_def)

section \<open>Purging by age\<close>

lemma del_all_keys:
  assumes "distinct ks" and "set ks \<subseteq> fst ` set d"
  shows "del_all d ks = Inr (filter (\<lambda>e. fst e \<notin> set ks) d)"
  using assms
proof (induction ks arbitrary: d)
  case Nil
  then show ?case by simp
next
  case (Cons k ks)
  let ?d = "filter (\<lambda>e. fst e \<noteq> k) d"
  from Cons.prems have "map_of d k \<noteq> None"
    by (simp add: map_of_eq_None_iff)
  then have del: "od_delitem d k = Inr ?d"
    by (simp add: od_delitem_def od_contains_def)
  have "x \<in> fst ` set ?d" if "x \<in> set ks" for x
  proof -
    from that Cons.prems obtain e where "e \<in> set d" "fst e = x"
      by auto
    moreover from that Cons.prems have "x \<noteq> k"
      by auto
    ultimately show ?thesis
      by force
  qed
  then have sub: "set ks \<subseteq> fst ` set ?d"
    by blast
  from Cons.prems have "distinct ks"
    by simp
  from Cons.IH [OF this sub] have "del_all ?d ks = Inr (filter (\<lambda>e. fst e \<notin> set ks) ?d)" .
  with del show ?case
    by simp
qed

text \<open>
  \<open>purge_unused\<close> keeps exactly the entries whose stored time, the time of
  their last \<open>put\<close>, is at most \<open>max_age_seconds\<close> old; \<open>get\<close> changes the
  order of the entries and nothing else.
\<close>

lemma purge_unused_by_put_time:
  assumes "distinct (map fst (cache tc))"
  shows "purge_unused tc now max_age_seconds
         = Inr (tc\<lparr>cache := filter (\<lambda>e. \<not> now - snd (snd e) > max_age_seconds) (cache tc)\<rparr>)"
proof -
  let ?P = "\<lambda>e :: string \<times> 'a \<times> real. now - snd (snd e) > max_age_seconds"
  let ?ks = "map fst (filter ?P (cache tc))"
  have d: "distinct ?ks"
    using assms by (rule distinct_map_filter)
  have iff: "fst e \<notin> set ?ks \<longleftrightarrow> \<not> ?P e" if e: "e \<in> set (cache tc)" for e
  proof
    assume "fst e \<notin> set ?ks"
    with e show "\<not> ?P e"
      by force
  next
    assume n: "\<not> ?P e"
    show "fst e \<notin> set ?ks"
    proof
      assume "fst e \<in> set ?ks"
      then obtain e' where e': "e' \<in> set (cache tc)" "?P e'" "fst e' = fst e"
        by auto
      from assms e e'(1,3) have "e' = e"
        by (simp add: distinct_map inj_on_def)
      with e'(2) n show False
        by simp
    qed
  qed
  have "filter (\<lambda>e. fst e \<notin> set ?ks) (cache tc) = filter (\<lambda>e. \<not> ?P e) (cache tc)"
    by (rule filter_cong [OF refl]) (rule iff)
  moreover have "set ?ks \<subseteq> fst ` set (cache tc)"
    by auto
  ultimately have "del_all (cache tc) ?ks = Inr (filter (\<lambda>e. \<not> ?P e) (cache tc))"
    using del_all_keys [OF d, of "cache tc"] by simp
  then show ?thesis
    by (simp add: purge_unused_def keys_to_remove_def)
qed

lemma get_keeps_entries:
  assumes "distinct (map fst (cache tc))" and "get tc path = Inr (r, tc')"
  shows "set (cache tc') = set (cache tc)"
proof (cases "map_of (cache tc) path")
  case None
  with assms(2) show ?thesis by (simp add: get_miss)
next
  case (Some v)
  have uniq: "e = (path, v)" if "e \<in> set (cache tc)" "fst e = path" for e
  proof -
    have "(fst e, snd e) \<in> set (cache tc)"
      using that(1) by simp
    then have "(path, snd e) \<in> set (cache tc)"
      using that(2) by simp
    from map_of_is_SomeI [OF assms(1) this] Some have "snd e = v"
      by simp
    with that(2) show ?thesis
      by (metis prod.collapse)
  qed
  have pv: "(path, v) \<in> set (cache tc)"
    using Some by (rule map_of_SomeD)
  from get_hit [OF Some] assms(2)
  have c': "cache tc' = filter (\<lambda>e. fst e \<noteq> path) (cache tc) @ [(path, v)]"
    by simp
  show ?thesis
    unfolding c'
  proof (intro equalityI subsetI)
    fix e
    assume "e \<in> set (filter (\<lambda>e. fst e \<noteq> path) (cache tc) @ [(path, v)])"
    with pv show "e \<in> set (cache tc)"
      by auto
  next
    fix e
    assume e: "e \<in> set (cache tc)"
    show "e \<in> set (filter (\<lambda>e. fst e \<noteq> path) (cache tc) @ [(path, v)])"
    proof (cases "fst e = path")
      case True
      with uniq [OF e] show ?thesis by simp
    next
      case False
      with e show ?thesis by simp
    qed
  qed
qed

text \<open>
  Claim C2 at a failing input. A thumbnail is put at time 0. At time 900 a
  page is rendered: \<open>purge_unused\<close> keeps the entry and \<open>get\<close> returns it. At
  time 901 the page is rendered again: \<open>purge_unused\<close>, with the default age
  of 900, removes the entry that was read a second earlier, and the \<open>get\<close>
  misses.
\<close>

theorem purge_unused_ignores_get:
  "put (ThumbnailCache MAX_THUMB_CACHE) ''a.png'' (7::nat) 0
     = Inr \<lparr>cache = [(''a.png'', 7, 0)], max_size = 300\<rparr>
   \<and> purge_unused \<lparr>cache = [(''a.png'', 7::nat, 0)], max_size = 300\<rparr> 900 900
     = Inr \<lparr>cache = [(''a.png'', 7, 0)], max_size = 300\<rparr>
   \<and> get \<lparr>cache = [(''a.png'', 7::nat, 0)], max_size = 300\<rparr> ''a.png''
     = Inr (Some 7, \<lparr>cache = [(''a.png'', 7, 0)], max_size = 300\<rparr>)
   \<and> purge_unused \<lparr>cache = [(''a.png'', 7::nat, 0)], max_size = 300\<rparr> 901 900
     = Inr \<lparr>cache = [], max_size = 300\<rparr>
   \<and> get \<lparr>cache = [], max_size = 300\<rparr> ''a.png''
     = Inr (None :: nat option, \<lparr>cache = [], max_size = 300\<rparr>)"
  by (simp add: put_result get_def od_contains_def od_move_to_end_def purge_unused_def
        keys_to_remove_def od_delitem_def ThumbnailCache_def MAX_THUMB_CACHE_def)

section \<open>The filtered view\<close>

lemma numeric_loop_filter:
  "numeric_loop nf d = filter (\<lambda>e. passes_numeric nf (snd e)) d"
  by (induction nf d rule: numeric_loop.induct)
     (auto simp: passes_numeric_def intro: filter_cong)

lemma category_loop_filter:
  "category_loop cf d = filter (\<lambda>e. passes_category cf (snd e)) d"
  by (induction cf d rule: category_loop.induct)
     (auto simp: passes_category_def intro: filter_cong)

lemma text_filter_Inr:
  "text_filter re raw field d = Inr d' \<Longrightarrow>
   d' = filter (\<lambda>e. passes_text re raw (field (snd e))) d"
  by (auto simp: text_filter_def passes_text_def Let_def split: if_splits sum.splits)

lemma text_filter_other_rows:
  "text_filter re raw field d = Inr d' \<Longrightarrow> \<exists>d''. text_filter re raw field c = Inr d''"
  by (auto simp: text_filter_def Let_def split: if_splits sum.splits)

lemma filtered_rows_Inr:
  assumes "filtered_rows re s = Inr d"
  shows "d = filter (\<lambda>e. row_visible re s (snd e)) (indexed (df s))"
proof -
  let ?d0 = "category_loop (category_filters s) (numeric_loop (numeric_filters s) (indexed (df s)))"
  from assms obtain d1 d2 where
    t1: "text_filter re (dir_search_var s) dir ?d0 = Inr d1"
    and t2: "text_filter re (file_search_var s) file' d1 = Inr d2"
    and d: "d = (if hide_marked_var s then filter (\<lambda>e. marked (snd e) = False) d2 else d2)"
    by (auto simp: filtered_rows_def Let_def split: sum.splits)
  show ?thesis
    unfolding d text_filter_Inr [OF t2] text_filter_Inr [OF t1]
      category_loop_filter numeric_loop_filter row_visible_def
    by (auto intro: filter_cong)
qed

lemma filtered_rows_same_controls:
  assumes "df t = df s" "numeric_filters t = numeric_filters s"
    "category_filters t = category_filters s" "dir_search_var t = dir_search_var s"
    "file_search_var t = file_search_var s" "hide_marked_var t = hide_marked_var s"
  shows "filtered_rows re t = filtered_rows re s"
  unfolding filtered_rows_def assms by (rule refl)

lemma apply_filters_Done:
  assumes "apply_filters re rp s = Done s'"
  shows "filtered_rows re s = Inr (filtered_df s')"
    and "df s' = df s" and "numeric_filters s' = numeric_filters s"
    and "category_filters s' = category_filters s" and "dir_search_var s' = dir_search_var s"
    and "file_search_var s' = file_search_var s" and "hide_marked_var s' = hide_marked_var s"
    and "selected_index s' = None" and "marked_page s' = marked_page s"
    and "page s' = (if rp then 0 else min (page s) (max_page_of (length (filtered_df s'))))"
    and "numeric_keys s' = numeric_keys s" and "category_keys s' = category_keys s"
    and "\<not> (data_column s ''index'' \<and> data_column s ''level_0'')"
  using assms
  by (auto simp: apply_filters_def reset_index_def update_info_def update_counts_def
        render_marked_def render_gallery_def Let_def split: sum.splits if_splits)

lemma apply_filters_Raised:
  "apply_filters re rp s = Raised e s' \<Longrightarrow> s' = s"
  by (auto simp: apply_filters_def reset_index_def update_info_def update_counts_def
        render_marked_def render_gallery_def Let_def split: sum.splits if_splits)

lemma apply_filters_succeeds:
  assumes "filtered_rows re s = Inr d"
    and "\<not> (data_column s ''index'' \<and> data_column s ''level_0'')"
  shows "\<exists>s'. apply_filters re rp s = Done s'"
  using assms
  by (simp add: apply_filters_def reset_index_def update_info_def update_counts_def
        render_marked_def render_gallery_def Let_def)

lemma apply_filters_view_current:
  assumes "apply_filters re rp s = Done s'"
  shows "filtered_rows re s' = Inr (filtered_df s')"
  using filtered_rows_same_controls [of s' s re] apply_filters_Done [OF assms] by simp

text \<open>
  Claim C5. Whatever the filter widgets hold, a view computed by
  \<open>apply_filters\<close> is a subsequence of the table with its index labels, so it
  holds rows of the table only and in table order; the table itself is left as
  it was; and applying the filters again, to the state just reached, succeeds
  and computes the same view.
\<close>

theorem filtered_view_subseq_idempotent:
  assumes "apply_filters re rp s = Done s'"
  shows "subseq (filtered_df s') (indexed (df s))
         \<and> set (filtered_df s') \<subseteq> set (indexed (df s))
         \<and> df s' = df s
         \<and> (\<exists>s''. apply_filters re rp' s' = Done s'' \<and> filtered_df s'' = filtered_df s')"
proof -
  note f = apply_filters_Done [OF assms]
  have v: "filtered_df s' = filter (\<lambda>e. row_visible re s (snd e)) (indexed (df s))"
    by (rule filtered_rows_Inr [OF f(1)])
  have same: "filtered_rows re s' = Inr (filtered_df s')"
    by (rule apply_filters_view_current [OF assms])
  have "\<not> (data_column s' ''index'' \<and> data_column s' ''level_0'')"
    using f(11-13) by (simp add: data_column_def)
  from apply_filters_succeeds [OF same this, of rp'] obtain s'' where
    a: "apply_filters re rp' s' = Done s''" by blast
  from apply_filters_Done(1) [OF a] same have "filtered_df s'' = filtered_df s'"
    by simp
  with a v f(2) show ?thesis
    by auto
qed


lemma demo_apply: "apply_filters re_search True demo = Done demo_filtered"
  by (simp add: gallery_eval)

text \<open>The window \<open>demo_filtered\<close> is the one that start-up on the small dataset leaves.\<close>

lemma demo_init:
  "init re_search demo_csv
   = ([Call ''_load_dataframe'', Call ''_build_layout'', Call ''_apply_filters''],
      Inr demo_filtered)"
  by (simp add: gallery_eval)

theorem filtered_view_subseq_idempotent_witness:
  "apply_filters re_search True demo = Done demo_filtered
   \<and> map fst (filtered_df demo_filtered) = [0, 2]
   \<and> subseq (filtered_df demo_filtered) (indexed (df demo))
   \<and> set (filtered_df demo_filtered) \<subseteq> set (indexed (df demo))
   \<and> df demo_filtered = df demo
   \<and> (\<exists>s''. apply_filters re_search False demo_filtered = Done s''
          \<and> filtered_df s'' = filtered_df demo_filtered)"
  using filtered_view_subseq_idempotent [OF demo_apply, of False] demo_apply
  by (simp add: demo_filtered_def)

section \<open>Missing numeric values\<close>

lemma in_set_indexed: "(i, r) \<in> set (indexed rs) \<longleftrightarrow> i < length rs \<and> r = rs ! i"
proof
  assume "(i, r) \<in> set (indexed rs)"
  then show "i < length rs \<and> r = rs ! i"
    by (auto simp: indexed_def in_set_zip)
next
  assume "i < length rs \<and> r = rs ! i"
  then have "i < length (indexed rs)" "indexed rs ! i = (i, r)"
    by (simp_all add: indexed_def)
  then show "(i, r) \<in> set (indexed rs)"
    by (metis nth_mem)
qed

lemma passes_numeric_NaN:
  assumes "k \<in> fst ` set nf" and "numeric r k = NaN"
  shows "\<not> passes_numeric nf r"
  using assms by (force simp: passes_numeric_def list_all_iff num_ge_def)

lemma init_numeric_filters:
  "init re env = (ev, Inr s) \<Longrightarrow> map fst (numeric_filters s) = numeric_keys s"
  by (auto simp: init_def build_layout_def fresh_window_def apply_filters_def reset_index_def
        update_info_def update_counts_def render_marked_def render_gallery_def Let_def comp_def
      split: sum.splits if_splits option.splits outcome.splits)

text \<open>
  Claim C10. The filter panel holds a pair of sliders for every numeric column
  (\<open>init_numeric_filters\<close>). In such a window, a row whose cell in some numeric
  column is missing is in no view that \<open>apply_filters\<close> computes, whatever
  the sliders and the other filter widgets are set to.
\<close>

theorem nan_row_never_visible:
  assumes "apply_filters re rp s = Done s'"
    and "map fst (numeric_filters s) = numeric_keys s"
    and "k \<in> set (numeric_keys s)"
    and "i < length (df s)"
    and "numeric (df s ! i) k = NaN"
  shows "i \<notin> fst ` set (filtered_df s')"
proof
  assume "i \<in> fst ` set (filtered_df s')"
  then obtain r where in_view: "(i, r) \<in> set (filtered_df s')"
    by auto
  have v: "filtered_df s' = filter (\<lambda>e. row_visible re s (snd e)) (indexed (df s))"
    by (rule filtered_rows_Inr [OF apply_filters_Done(1) [OF assms(1)]])
  from in_view have "r = df s ! i" and vis: "row_visible re s r"
    by (auto simp: v in_set_indexed)
  moreover have "k \<in> fst ` set (numeric_filters s)"
    using assms(2,3) by (metis set_map)
  ultimately show False
    using passes_numeric_NaN [of k "numeric_filters s" r] assms(5)
    by (simp add: row_visible_def)
qed

theorem nan_row_never_visible_witness:
  "apply_filters re_search True demo = Done demo_filtered
   \<and> map fst (numeric_filters demo) = numeric_keys demo
   \<and> ''score'' \<in> set (numeric_keys demo)
   \<and> 1 < length (df demo)
   \<and> numeric (df demo ! 1) ''score'' = NaN
   \<and> 1 \<notin> fst ` set (filtered_df demo_filtered)"
proof -
  have h: "map fst (numeric_filters demo) = numeric_keys demo"
    "''score'' \<in> set (numeric_keys demo)" "1 < length (df demo)"
    "numeric (df demo ! 1) ''score'' = NaN"
    by (simp_all add: gallery_eval)
  from nan_row_never_visible [OF demo_apply h] demo_apply h show ?thesis
    by simp
qed

section \<open>Marking\<close>

lemma indexed_nth: "i < length rs \<Longrightarrow> indexed rs ! i = (i, rs ! i)"
  by (simp add: indexed_def)

lemma length_indexed: "length (indexed rs) = length rs"
  by (simp add: indexed_def)

lemma index_column_plain:
  "\<not> data_column s ''index'' \<Longrightarrow>
   index_column s e = (if fst e < length (df s) then Some (fst e) else None)"
  by (simp add: index_column_def data_column_def)

lemma mark_all_filtered_Done:
  assumes "mark_all_filtered re s = Done s1" and "\<not> data_column s ''index''"
  shows "df s1 = map (\<lambda>e. if fst e \<in> fst ` set (filtered_df s) then (snd e)\<lparr>marked := True\<rparr>
                          else snd e) (indexed (df s))"
    and "numeric_filters s1 = numeric_filters s" and "category_filters s1 = category_filters s"
    and "dir_search_var s1 = dir_search_var s" and "file_search_var s1 = file_search_var s"
proof -
  let ?keys = "map (index_column s) (filtered_df s)"
  let ?s = "s\<lparr>df := map (\<lambda>e. if Some (fst e) \<in> set ?keys
                                then (snd e)\<lparr>marked := True\<rparr> else snd e) (indexed (df s))\<rparr>"
  from assms(1) have k: "None \<notin> set ?keys" and a: "apply_filters re False ?s = Done s1"
    by (auto simp: mark_all_filtered_def Let_def split: if_splits)
  have "index_column s e = Some (fst e)" if "e \<in> set (filtered_df s)" for e
  proof -
    from that k have "index_column s e \<noteq> None"
      by (metis image_eqI set_map)
    then show ?thesis
      by (simp add: index_column_plain [OF assms(2)] split: if_splits)
  qed
  then have "?keys = map (\<lambda>e. Some (fst e)) (filtered_df s)"
    by simp
  then have keys: "Some i \<in> set ?keys \<longleftrightarrow> i \<in> fst ` set (filtered_df s)" for i
    by (simp only: set_map) blast
  note f = apply_filters_Done [OF a]
  from f(2) show "df s1 = map (\<lambda>e. if fst e \<in> fst ` set (filtered_df s)
                          then (snd e)\<lparr>marked := True\<rparr> else snd e) (indexed (df s))"
    by (simp only: keys) simp
  from f show "numeric_filters s1 = numeric_filters s" "category_filters s1 = category_filters s"
    "dir_search_var s1 = dir_search_var s" "file_search_var s1 = file_search_var s"
    by simp_all
qed

text \<open>
  On a table without a column named \<^verbatim>\<open>index\<close> the button marks the rows of
  the view. Let the view on screen be the one that the filter widgets, as they
  stand, compute (\<open>apply_filters\<close> leaves it so, \<open>apply_filters_view_current\<close>,
  and paging and selecting keep it so). After \<open>mark_all_filtered\<close> the marked
  rows are the rows that were marked before and the rows of that view, and
  nothing else of the table has changed; when the filters are then applied
  with the hide-marked checkbox set, the view is empty.
\<close>

lemma mark_all_then_hide_marked_plain:
  assumes "\<not> data_column s ''index''"
    and "filtered_rows re s = Inr (filtered_df s)"
    and "mark_all_filtered re s = Done s1"
    and "apply_filters re rp' (s1\<lparr>hide_marked_var := True\<rparr>) = Done s2"
  shows "filtered_df s2 = []
         \<and> length (df s1) = length (df s)
         \<and> (\<forall>i < length (df s).
               df s1 ! i = (df s ! i)\<lparr>marked := marked (df s ! i) \<or> i \<in> fst ` set (filtered_df s)\<rparr>)"
proof -
  note m = mark_all_filtered_Done [OF assms(3) assms(1)]
  let ?idx = "fst ` set (filtered_df s)"
  have view: "filtered_df s = filter (\<lambda>e. row_visible re s (snd e)) (indexed (df s))"
    by (rule filtered_rows_Inr [OF assms(2)])
  have len: "length (df s1) = length (df s)"
    by (simp add: m(1) length_indexed)
  have row: "df s1 ! i = (if i \<in> ?idx then (df s ! i)\<lparr>marked := True\<rparr> else df s ! i)"
    if "i < length (df s)" for i
    using that by (simp add: m(1) length_indexed indexed_nth)
  have marks: "df s1 ! i = (df s ! i)\<lparr>marked := marked (df s ! i) \<or> i \<in> ?idx\<rparr>"
    if "i < length (df s)" for i
    using row [OF that] by simp
  let ?h = "s1\<lparr>hide_marked_var := True\<rparr>"
  have v2: "filtered_df s2 = filter (\<lambda>e. row_visible re ?h (snd e)) (indexed (df ?h))"
    by (rule filtered_rows_Inr [OF apply_filters_Done(1) [OF assms(4)]])
  have "\<not> row_visible re ?h (snd e)" if e: "e \<in> set (indexed (df s1))" for e
  proof
    assume vis: "row_visible re ?h (snd e)"
    obtain i r where [simp]: "e = (i, r)" by (cases e)
    from e have i: "i < length (df s)" and r: "r = df s1 ! i"
      by (simp_all add: in_set_indexed len)
    from vis have unmarked: "\<not> marked r"
      by (simp add: row_visible_def)
    with r row [OF i] have out: "i \<notin> ?idx" and same: "r = df s ! i"
      by (auto split: if_splits)
    from vis unmarked have "row_visible re s r"
      using m(2-5) by (simp add: row_visible_def)
    with i same have "(i, r) \<in> set (filtered_df s)"
      by (simp add: view in_set_indexed)
    with out show False
      by force
  qed
  then have "filtered_df s2 = []"
    by (simp add: v2 filter_empty_conv)
  with len marks show ?thesis
    by simp
qed

lemma saved_init:
  "init re_search saved_csv
   = ([Call ''_load_dataframe'', Call ''_build_layout'', Call ''_apply_filters''], Inr saved)"
  by (simp add: saved_def saved_csv_def gallery_eval)

text \<open>
  Claim C6 at a failing input. The file has a column named \<^verbatim>\<open>index\<close>, so the
  index labels of the view are in the column \<^verbatim>\<open>level_0\<close> and
  \<^verbatim>\<open>self.filtered_df["index"]\<close> is the column of the file. With \<^verbatim>\<open>x\<close> in the entry
  for the directory the view is the first row, label 0, whose cell in that
  column is 1: the button marks the second row, which is not in the view, and
  leaves the first unmarked. When the filters are applied with the hide-marked
  checkbox set, the first row is still in the view.
\<close>

theorem mark_all_filtered_index_column:
  "numeric_keys saved = [''index'']
   \<and> map marked (df saved) = [False, False]
   \<and> raised (apply_filters re_search True (saved\<lparr>dir_search_var := ''x''\<rparr>)) = None
   \<and> map fst (filtered_df saved_x) = [0]
   \<and> raised (mark_all_filtered re_search saved_x) = None
   \<and> map marked (df saved_marked) = [False, True]
   \<and> raised (apply_filters re_search False (saved_marked\<lparr>hide_marked_var := True\<rparr>)) = None
   \<and> map fst (filtered_df (state_of
        (apply_filters re_search False (saved_marked\<lparr>hide_marked_var := True\<rparr>)))) = [0]"
  by (simp add: saved_marked_def saved_x_def saved_def saved_csv_def gallery_eval)

section \<open>The selection\<close>

lemma outcome_Done: "raised out = None \<Longrightarrow> out = Done (state_of out)"
  by (cases out) simp_all

text \<open>
  Claim C4, as the code has it. The selection is a row label or none. Without
  a selection \<open>toggle_mark\<close> does nothing. Every \<open>apply_filters\<close> that returns
  leaves no selection (one that raises leaves the selection as it was), and so
  does every \<open>toggle_mark\<close> that returns, since it ends with \<open>apply_filters\<close>:
  the mark of the selected row is flipped, the rest of the table is kept, and
  the selection is gone.
\<close>

theorem toggle_mark_clears_selection:
  "(selected_index s = None \<longrightarrow> toggle_mark re s = Done s)
   \<and> (raised (toggle_mark re s) = None \<longrightarrow>
        selected_index (state_of (toggle_mark re s)) = None
        \<and> (\<forall>i. selected_index s = Some i \<longrightarrow>
              df (state_of (toggle_mark re s))
              = (df s)[i := (df s ! i)\<lparr>marked := \<not> marked (df s ! i)\<rparr>]))
   \<and> selected_index (state_of (apply_filters re rp s))
       = (if raised (apply_filters re rp s) = None then None else selected_index s)"
proof (intro conjI impI allI)
  show "toggle_mark re s = Done s" if "selected_index s = None"
    using that by (simp add: toggle_mark_def)
  show "selected_index (state_of (toggle_mark re s)) = None"
    if r: "raised (toggle_mark re s) = None"
  proof (cases "selected_index s")
    case None
    then show ?thesis by (simp add: toggle_mark_def)
  next
    case (Some i)
    with outcome_Done [OF r] show ?thesis
      by (auto simp: toggle_mark_def split: if_splits dest: apply_filters_Done(8))
  qed
  show "df (state_of (toggle_mark re s)) = (df s)[i := (df s ! i)\<lparr>marked := \<not> marked (df s ! i)\<rparr>]"
    if "raised (toggle_mark re s) = None" "selected_index s = Some i" for i
    using outcome_Done [OF that(1)] that(2)
    by (auto simp: toggle_mark_def split: if_splits dest: apply_filters_Done(2))
  show "selected_index (state_of (apply_filters re rp s))
        = (if raised (apply_filters re rp s) = None then None else selected_index s)"
  proof (cases "apply_filters re rp s")
    case (Done s')
    then show ?thesis by (simp add: apply_filters_Done(8) [OF Done])
  next
    case (Raised e s')
    then show ?thesis by (simp add: apply_filters_Raised [OF Raised])
  qed
qed

theorem toggle_mark_clears_selection_witness:
  "selected_index demo_filtered = None
   \<and> toggle_mark re_search demo_filtered = Done demo_filtered
   \<and> select_row demo_filtered 0 = Done demo_selected
   \<and> selected_index demo_selected = Some 0
   \<and> raised (toggle_mark re_search demo_selected) = None
   \<and> selected_index (state_of (toggle_mark re_search demo_selected)) = None
   \<and> map marked (df (state_of (toggle_mark re_search demo_selected))) = [True, False, True]"
proof -
  have n: "selected_index demo_filtered = None"
    by (simp add: gallery_eval)
  have "select_row demo_filtered 0 = Done demo_selected" "selected_index demo_selected = Some 0"
    "map marked ((df demo_selected)[0 := (df demo_selected ! 0)
        \<lparr>marked := \<not> marked (df demo_selected ! 0)\<rparr>]) = [True, False, True]"
    and r: "raised (toggle_mark re_search demo_selected) = None"
    by (simp_all add: gallery_eval)
  with toggle_mark_clears_selection [of demo_filtered re_search False]
    toggle_mark_clears_selection [of demo_selected re_search False] n
  show ?thesis
    by simp
qed

text \<open>
  The claim as it was written fails: with the first row selected, the mark
  toggle returns without an exception and the selection is not the one before.
\<close>

theorem toggle_mark_selection_counterexample:
  "selected_index demo_selected = Some 0
   \<and> raised (toggle_mark re_search demo_selected) = None
   \<and> selected_index (state_of (toggle_mark re_search demo_selected)) \<noteq> selected_index demo_selected"
  by (simp add: gallery_eval)

section \<open>Pagination\<close>

lemma total_pages_max_page: "total_pages n = max_page_of n + 1"
  by (simp add: total_pages_def max_page_of_def)

lemma apply_filters_page_clamped:
  assumes "apply_filters re rp s = Done s'" and "0 \<le> page s"
  shows "0 \<le> page s' \<and> page s' \<le> total_pages (length (filtered_df s')) - 1"
  using apply_filters_Done(10) [OF assms(1)] assms(2)
  by (simp add: total_pages_max_page) (simp add: max_page_of_def)

lemma next_page_at_last:
  "page s = total_pages (length (filtered_df s)) - 1 \<Longrightarrow> next_page s = s"
  by (simp add: next_page_def total_pages_max_page)

lemma prev_page_at_first: "page s = 0 \<Longrightarrow> prev_page s = s"
  by (simp add: prev_page_def)

lemma prev_marked_page_at_first: "marked_page s = 0 \<Longrightarrow> prev_marked_page s = s"
  by (simp add: prev_marked_page_def)

lemma next_marked_page_at_last:
  assumes "marked_page s = total_pages (marked_count s) - 1"
  shows "next_marked_page s = s"
proof -
  have "real (marked_count s) / 20 \<le> of_int \<lceil>real (marked_count s) / 20\<rceil>"
    by (rule le_of_int_ceiling)
  also have "\<dots> \<le> of_int (total_pages (marked_count s))"
    by (simp add: total_pages_def ceil_div_def IMAGES_PER_PAGE_def)
  finally have "real (marked_count s) \<le> of_int (total_pages (marked_count s) * 20)"
    by simp
  then have "int (marked_count s) \<le> total_pages (marked_count s) * 20"
    by (metis of_int_le_iff of_int_of_nat_eq)
  with assms show ?thesis
    by (simp add: next_marked_page_def IMAGES_PER_PAGE_def)
qed

text \<open>
  Claim C3 at a failing input. The page count of both views is the maximum of
  1 and the ceiling of length over 20, the index of the main view is clamped by
  every \<open>apply_filters\<close> (\<open>apply_filters_page_clamped\<close>), and the four paging
  callbacks do nothing at their boundary (the four lemmas above). The index of
  the marked view is never clamped: with twenty-one marked rows and the second
  marked page on screen, \<open>clear_marked\<close> leaves no marked row, so one page, and
  the marked view still at page index 1, labelled \<^verbatim>\<open>Page 2 / 1\<close>.
\<close>

theorem marked_page_not_clamped:
  "marked_count many_marked = 21
   \<and> marked_page many_marked = 1
   \<and> marked_page_label many_marked = (2, 2)
   \<and> raised (clear_marked re_search many_marked) = None
   \<and> marked_count (state_of (clear_marked re_search many_marked)) = 0
   \<and> total_pages (marked_count (state_of (clear_marked re_search many_marked))) = 1
   \<and> marked_page (state_of (clear_marked re_search many_marked)) = 1
   \<and> marked_page_label (state_of (clear_marked re_search many_marked)) = (2, 1)"
  by (simp add: many_marked_def many_def gallery_eval eval_nat_numeral)

section \<open>The text filters\<close>

lemma lower_char_idem: "lower_char (lower_char c) = lower_char c"
  by (auto simp: lower_char_def split: option.splits if_splits)

lemma match_here_prefix:
  assumes "CHR ''.'' \<notin> set p"
  shows "match_here (lower p) (lower v) \<longleftrightarrow> prefix (lower p) (lower v)"
  using assms
proof (induction p arbitrary: v)
  case Nil
  then show ?case by (simp add: lower_def)
next
  case (Cons a p)
  have dot: "lower_char a \<noteq> CHR ''.''"
    using Cons.prems by (auto simp: lower_char_def split: option.splits if_splits)
  show ?case
  proof (cases v)
    case Nil
    then show ?thesis by (simp add: lower_def)
  next
    case (Cons b w)
    with Cons.IH [of w] Cons.prems dot show ?thesis
      by (auto simp: lower_def lower_char_idem)
  qed
qed

text \<open>
  For a query without a special character the engine decides containment of
  the lower-cased, stripped query in the lower-cased field.
\<close>

lemma passes_text_plain:
  assumes "set (lower (strip raw)) \<inter> set re_special = {}"
  shows "passes_text re_search raw v \<longleftrightarrow>
         lower (strip raw) = [] \<or> sublist (lower (strip raw)) (lower v)"
proof -
  let ?q = "lower (strip raw)"
  have nodot: "CHR ''.'' \<notin> set (strip raw)"
  proof
    assume "CHR ''.'' \<in> set (strip raw)"
    then have "lower_char (CHR ''.'') \<in> set ?q"
      unfolding lower_def by (metis image_eqI set_map)
    then have "CHR ''.'' \<in> set ?q"
      by (simp add: lower_char_def)
    with assms show False
      by (auto simp: re_special_def)
  qed
  have ok: "re_search ?q = Inr (search_from ?q)"
    using assms by (auto simp: re_search_def)
  have "search_from ?q (lower v) \<longleftrightarrow> sublist ?q (lower v)"
  proof (induction v)
    case Nil
    from match_here_prefix [OF nodot, of "[]"] show ?case
      by (simp add: lower_def)
  next
    case (Cons b w)
    from match_here_prefix [OF nodot, of "b # w"] Cons show ?case
      by (simp add: lower_def sublist_Cons_right)
  qed
  then show ?thesis
    by (simp add: passes_text_def ok Let_def)
qed

text \<open>
  Claim C7 at a failing input. The query \<^verbatim>\<open>c.t\<close> in the entry for the directory
  is compiled as a regular expression, whose dot stands for any character: the
  rows with the directories \<^verbatim>\<open>cats\<close> and \<^verbatim>\<open>Cats2\<close> are in the view although
  neither directory contains the text \<^verbatim>\<open>c.t\<close>, in any case. The query \<^verbatim>\<open>(\<close>
  is rejected by the compiler: the callback raises and the window stays as it
  was.
\<close>

theorem dir_query_is_a_regex:
  "raised (apply_filters re_search True (demo\<lparr>dir_search_var := ''c.t''\<rparr>)) = None
   \<and> map (\<lambda>e. dir (snd e))
        (filtered_df (state_of (apply_filters re_search True (demo\<lparr>dir_search_var := ''c.t''\<rparr>))))
      = [''cats'', ''Cats2'']
   \<and> \<not> sublist (lower ''c.t'') (lower ''cats'')
   \<and> \<not> sublist (lower ''c.t'') (lower ''Cats2'')
   \<and> apply_filters re_search True (demo\<lparr>dir_search_var := ''(''\<rparr>)
       = Raised ReError (demo\<lparr>dir_search_var := ''(''\<rparr>)"
  by (simp add: gallery_eval sublist_Cons_right)

section \<open>Export\<close>

lemma write_rows_concat:
  "write_rows rs buf = buf @ concat (map (\<lambda>r. os_path_join (dir r) (file' r) @ [CHR 0x0A]) rs)"
  by (induction rs arbitrary: buf) simp_all

lemma clear_marked_no_marks: "filter marked (df (state_of (clear_marked re s))) = []"
proof (cases "clear_marked re s")
  case (Done s')
  then show ?thesis
    by (simp add: clear_marked_def apply_filters_Done(2) filter_empty_conv)
next
  case (Raised e s')
  then show ?thesis
    by (auto simp: clear_marked_def filter_empty_conv dest!: apply_filters_Raised)
qed

text \<open>
  Claim C8. Without a marked row the export shows the notice and leaves the
  files as they are; this is so after \<open>clear_marked\<close>, however it ended. With a
  marked row, a file chosen in the dialog and \<^verbatim>\<open>open\<close> succeeding, the chosen file,
  and no other, is written, and it holds for every marked row, in table order,
  the joined path followed by a newline. When the dialog is cancelled or
  \<^verbatim>\<open>open\<close> raises, no file is written.
\<close>

theorem export_marked_txt_spec:
  "(filter marked (df s) = [] \<longrightarrow>
      export_marked_txt s p oe fs = ([ShowInfo ''Export'' ''No marked files to export.''], fs))
   \<and> snd (export_marked_txt (state_of (clear_marked re s)) p oe fs) = fs
   \<and> (filter marked (df s) \<noteq> [] \<and> p \<noteq> [] \<longrightarrow>
        snd (export_marked_txt s p None fs)
        = fs(p \<mapsto> concat (map (\<lambda>r. os_path_join (dir r) (file' r) @ [CHR 0x0A])
                              (filter marked (df s)))))
   \<and> (p = [] \<or> oe \<noteq> None \<longrightarrow> snd (export_marked_txt s p oe fs) = fs)"
proof (intro conjI impI)
  show "snd (export_marked_txt (state_of (clear_marked re s)) p oe fs) = fs"
    by (simp add: export_marked_txt_def clear_marked_no_marks)
qed (auto simp: export_marked_txt_def write_rows_concat Let_def split: option.splits)

theorem export_marked_txt_spec_witness:
  "filter marked (df (state_of (clear_marked re_search demo_selected))) = []
   \<and> export_marked_txt (state_of (clear_marked re_search demo_selected)) ''out.txt'' None Map.empty
      = ([ShowInfo ''Export'' ''No marked files to export.''], Map.empty)
   \<and> filter marked (df (state_of (mark_all_filtered re_search demo_filtered))) \<noteq> []
   \<and> ''out.txt'' \<noteq> []
   \<and> snd (export_marked_txt (state_of (mark_all_filtered re_search demo_filtered))
             ''out.txt'' None Map.empty) ''out.txt''
      = Some (''cats/a.png'' @ [CHR 0x0A] @ ''Cats2/c.png'' @ [CHR 0x0A])
   \<and> snd (export_marked_txt (state_of (mark_all_filtered re_search demo_filtered))
             [] None Map.empty) ''out.txt'' = None"
proof -
  let ?c = "state_of (clear_marked re_search demo_selected)"
  let ?m = "state_of (mark_all_filtered re_search demo_filtered)"
  have c: "filter marked (df ?c) = []"
    and m: "filter marked (df ?m) \<noteq> []" "''out.txt'' \<noteq> []"
    and v: "concat (map (\<lambda>r. os_path_join (dir r) (file' r) @ [CHR 0x0A]) (filter marked (df ?m)))
            = ''cats/a.png'' @ [CHR 0x0A] @ ''Cats2/c.png'' @ [CHR 0x0A]"
    by (simp_all add: gallery_eval os_path_join_def)
  from export_marked_txt_spec [of ?c "''out.txt''" None Map.empty re_search]
    export_marked_txt_spec [of ?m "''out.txt''" None Map.empty re_search]
    export_marked_txt_spec [of ?m "[]" None Map.empty re_search]
    c m v
  show ?thesis
    by simp
qed

section \<open>Start-up\<close>

text \<open>
  Claim C9 at its failing inputs. When the open dialog is cancelled,
  \<open>load_dataframe\<close> destroys the window and returns, without a message; when
  the columns \<^verbatim>\<open>dir\<close> and \<^verbatim>\<open>file\<close> are missing it shows the error box, destroys
  the window and returns. In both cases the constructor goes on to
  \<^verbatim>\<open>_build_layout\<close>, which raises \<^verbatim>\<open>TclError\<close> on the destroyed window, and the
  constructor ends with that exception.
\<close>

theorem init_continues_after_abort:
  "init re \<lparr>chosen_path = [], read_csv = csv\<rparr>
     = ([Call ''_load_dataframe'', Destroy, Call ''_build_layout''], Inl TclError)
   \<and> init re \<lparr>chosen_path = ''demo.csv'',
               read_csv = Inr \<lparr>columns = [(''dir'', False), (''score'', True)], rows = []\<rparr>\<rparr>
     = ([Call ''_load_dataframe'',
         ErrorBox ''Error'' (''Dataframe must contain '' @ [CHR 0x27] @ ''dir'' @ [CHR 0x27]
                               @ '' and '' @ [CHR 0x27] @ ''file'' @ [CHR 0x27]),
         Destroy, Call ''_build_layout''], Inl TclError)"
  by (simp add: init_def load_dataframe_def build_layout_def)

end
